theory Spec2Isabelle
  imports Main "HOL-Library.Multiset" "HOL-Library.Sublist"
begin

section \<open>The hosts table\<close>

text \<open>
  The program keeps the hosts file as a \<^verbatim>\<open>hostess.Hostlist\<close>, a slice of
  \<^verbatim>\<open>*hostess.Hostname\<close>. The sources build a \<^verbatim>\<open>Hostname\<close> from the three fields
  \<^verbatim>\<open>Domain\<close>, \<^verbatim>\<open>IP\<close> and \<^verbatim>\<open>Enabled\<close> (src/main.go 126-130), which are the fields of the
  record below.

  A \<^verbatim>\<open>net.IP\<close> is represented by its canonical text (\<open>''10.0.0.1''\<close>, \<open>''fd00::1''\<close>).
  The sources obtain the addresses of the mapping from \<^verbatim>\<open>net.ParseIP\<close> (src/udm-pro.go 57,
  src/internal/edgeos/edgeos.go 166 and 193), and the specification has it that "address comparison is
  exact (same representation/family)": two addresses are equal when their texts are.
\<close>

type_synonym IP = string

record Hostname =
  Domain :: string
  IP :: IP
  Enabled :: bool

type_synonym Hostlist = "Hostname list"

text \<open>
  \<^verbatim>\<open>strings.ToLower\<close> on ASCII text: the letters \<^verbatim>\<open>A\<close> to \<^verbatim>\<open>Z\<close> (codes 65 to 90) are
  moved to \<^verbatim>\<open>a\<close> to \<^verbatim>\<open>z\<close>, every other byte is kept. Host names are ASCII; the case
  mapping of other scripts is not modelled.
\<close>

definition toLowerChar :: "char \<Rightarrow> char" where
  "toLowerChar c =
     (let n = (of_char c :: nat) in if 65 \<le> n \<and> n \<le> 90 then char_of (n + 32) else c)"

definition ToLower :: "string \<Rightarrow> string" where
  "ToLower s = map toLowerChar s"

subsection \<open>The operations of the hosts-file library\<close>

text \<open>
  The package \<^verbatim>\<open>github.com/cbednarski/hostess\<close> is a dependency of the repository and
  its code is not among the sources. The six operations on a \<^verbatim>\<open>Hostlist\<close> that the
  sources call are given here with the arguments the call sites pass and the meaning the
  specification gives to the step each call performs.
\<close>

text \<open>
  Modelled from the spec: \<^verbatim>\<open>Hostlist.ContainsIP\<close> is missing from the sources. The
  specification: "Determine whether the Table currently has any entry with this address",
  the table being indexed for the "existence check for a given address".
\<close>

definition ContainsIP :: "Hostlist \<Rightarrow> IP \<Rightarrow> bool" where
  "ContainsIP hosts ip = list_ex (\<lambda>hostname. IP hostname = ip) hosts"

text \<open>
  Modelled from the spec: \<^verbatim>\<open>Hostlist.FilterByIP\<close> is missing from the sources. The
  specification: "all entries whose address equals a given address", scanned in table
  order. In Go the result is a new slice, so the loop that ranges over it is not disturbed
  by the removals it makes in the table.
\<close>

definition FilterByIP :: "Hostlist \<Rightarrow> IP \<Rightarrow> Hostlist" where
  "FilterByIP hosts ip = filter (\<lambda>hostname. IP hostname = ip) hosts"

text \<open>
  Modelled from the spec: \<^verbatim>\<open>Hostlist.Enable\<close> is missing from the sources. The
  specification: "if that entry is disabled, flip it to enabled (in place, same position)",
  with "name comparison ... case-insensitive throughout". The call site passes the incoming
  name and nothing else (\<^verbatim>\<open>hosts.Enable(domain)\<close>, src/main.go 146), so the operation can
  select entries by name only: it enables every entry of the list, at whatever address,
  whose name equals the given one up to case, and leaves the position and the name of
  every entry as they are.
\<close>

definition Enable :: "Hostlist \<Rightarrow> string \<Rightarrow> Hostlist" where
  "Enable hosts domain =
     map (\<lambda>hostname. if ToLower (Domain hostname) = ToLower domain
                      then hostname\<lparr>Enabled := True\<rparr> else hostname) hosts"

text \<open>
  Modelled from the spec: \<^verbatim>\<open>Hostlist.IndexOf\<close> is missing from the sources. The
  specification removes a stale entry "by its position"; the position of an entry is the
  first index at which it stands, and \<open>- 1\<close> when it stands nowhere.
\<close>

fun IndexOf :: "Hostlist \<Rightarrow> Hostname \<Rightarrow> int" where
  "IndexOf [] host = - 1"
| "IndexOf (found # rest) host =
     (if found = host then 0
      else (let i = IndexOf rest host in if i < 0 then - 1 else i + 1))"

text \<open>
  Modelled from the spec: \<^verbatim>\<open>Hostlist.Remove\<close> is missing from the sources. The
  specification: the entry at the given position "is removed from the Table", the order of
  the others being preserved; an index outside the list removes nothing.
\<close>

definition Remove :: "Hostlist \<Rightarrow> int \<Rightarrow> Hostlist" where
  "Remove hosts index =
     (if - 1 < index \<and> index < int (length hosts)
      then take (nat index) hosts @ drop (nat index + 1) hosts
      else hosts)"

text \<open>
  Modelled from the spec: \<^verbatim>\<open>Hostlist.Add\<close> is missing from the sources. The
  specification: "a new Entry{name, address, enabled: true} is appended". The sources
  ignore the value \<^verbatim>\<open>Add\<close> returns.
\<close>

definition Add :: "Hostlist \<Rightarrow> Hostname \<Rightarrow> Hostlist" where
  "Add hosts hostname = hosts @ [hostname]"

section \<open>Reconciliation\<close>

text \<open>
  \<^verbatim>\<open>removeHostsThatMatchIPAndNotDomain\<close> (src/main.go 139-156, the same text in
  src/pkg/host/updater.go 104-121 and src/edgeos.go). The \<^verbatim>\<open>for ... range\<close> over the
  filtered entries is \<open>removeLoop\<close>; it carries the table and the flag
  \<^verbatim>\<open>entryForIPHasDomain\<close>.

  The Go loop holds pointers, so \<^verbatim>\<open>matchingEntry.Enabled\<close> is read from the live entry,
  while \<open>removeLoop\<close> reads the flag the entry had when the loop started. The two differ
  only for an entry that an earlier iteration of the same loop has enabled; for such an
  entry \<open>removeLoop\<close> calls \<open>Enable\<close> with the same name once more, which changes nothing
  (\<open>Enable_idem\<close> below).
\<close>

fun removeLoop :: "Hostlist \<Rightarrow> string \<Rightarrow> Hostlist \<Rightarrow> bool \<Rightarrow> Hostlist \<times> bool" where
  "removeLoop hosts domain [] entryForIPHasDomain = (hosts, entryForIPHasDomain)"
| "removeLoop hosts domain (matchingEntry # rest) entryForIPHasDomain =
     (if ToLower (Domain matchingEntry) = ToLower domain
      then removeLoop (if \<not> Enabled matchingEntry then Enable hosts domain else hosts)
             domain rest True
      else removeLoop (Remove hosts (IndexOf hosts matchingEntry))
             domain rest entryForIPHasDomain)"

definition removeHostsThatMatchIPAndNotDomain ::
    "Hostlist \<Rightarrow> IP \<Rightarrow> string \<Rightarrow> Hostlist \<times> bool" where
  "removeHostsThatMatchIPAndNotDomain hosts ip domain =
     (if ContainsIP hosts ip
      then removeLoop hosts domain (FilterByIP hosts ip) False
      else (hosts, False))"

text \<open>
  The body of the loop of \<^verbatim>\<open>updateHostsFile\<close> (src/main.go 117-131,
  src/pkg/host/updater.go 74-88) for one pair of a name and an address, and the loop
  itself over the pairs in the order in which they are visited. For the
  \<^verbatim>\<open>map[string]net.IP\<close> of src/pkg/host/updater.go that order is whatever the Go runtime
  picks, and the names of the pairs are distinct; for the \<^verbatim>\<open>[]Host\<close> of src/main.go it
  is the order of the slice. The specification calls this loop \<^verbatim>\<open>reconcile\<close>.
\<close>

definition reconcile_pair :: "string \<times> IP \<Rightarrow> Hostlist \<Rightarrow> Hostlist" where
  "reconcile_pair pair hosts =
     (case pair of (name, ip) \<Rightarrow>
        if name = [] then hosts
        else (case removeHostsThatMatchIPAndNotDomain hosts ip name of
                (hosts', entryForIPHasDomain) \<Rightarrow>
                  if entryForIPHasDomain then hosts'
                  else Add hosts' \<lparr>Domain = name, IP = ip, Enabled = True\<rparr>))"

definition reconcile :: "(string \<times> IP) list \<Rightarrow> Hostlist \<Rightarrow> Hostlist" where
  "reconcile mapping hosts = fold reconcile_pair mapping hosts"

section \<open>The update pipeline\<close>

text \<open>
  Modelled from the spec: \<^verbatim>\<open>hostess.Hostfile\<close> with \<^verbatim>\<open>NewHostfile\<close>, \<^verbatim>\<open>Read\<close>,
  \<^verbatim>\<open>Parse\<close>, \<^verbatim>\<open>Save\<close> and \<^verbatim>\<open>Hostlist.Dump\<close> is missing from the sources. The
  specification: the Table Store "provides load() -> Table | Error and save(Table)", and
  its failures are "read/parse/write errors". The store is a record of what is persisted,
  of the answers the store will give in this run, and of the calls it has received.
\<close>

datatype store_call = CallRead | CallParse | CallSave Hostlist

datatype printed = PrintLine string | PrintDump Hostlist

record store =
  persisted :: Hostlist
  read_error :: "string option"
  parse_errors :: "string list"
  dump_error :: "string option"
  save_error :: "string option"
  calls :: "store_call list"
  stdout :: "printed list"

datatype error =
    ReadError string
  | MultipleParseErrors "string list"
  | SaveError string
  | ProviderError string
  | CouldNotUpdate error

datatype outcome = Returned "error option" | Panicked

definition Read :: "store \<Rightarrow> string option \<times> store" where
  "Read s = (read_error s, s\<lparr>calls := calls s @ [CallRead]\<rparr>)"

definition Parse :: "store \<Rightarrow> (string list \<times> Hostlist) \<times> store" where
  "Parse s = ((parse_errors s, persisted s), s\<lparr>calls := calls s @ [CallParse]\<rparr>)"

definition Save :: "Hostlist \<Rightarrow> store \<Rightarrow> error option \<times> store" where
  "Save hosts s =
     (case save_error s of
        Some e \<Rightarrow> (Some (SaveError e), s\<lparr>calls := calls s @ [CallSave hosts]\<rparr>)
      | None \<Rightarrow> (None, s\<lparr>persisted := hosts, calls := calls s @ [CallSave hosts]\<rparr>))"

text \<open>
  \<^verbatim>\<open>Host\<close> (src/host.go) and \<^verbatim>\<open>updateHostsFile\<close> of the command of src/main.go 105-134.
\<close>

record Host =
  Name :: string
  HostIP :: IP
  MAC :: string

definition main_updateHostsFile :: "Host list \<Rightarrow> store \<Rightarrow> outcome \<times> store" where
  "main_updateHostsFile hosts s =
     (case Read s of
        (Some err, s1) \<Rightarrow> (Returned (Some (ReadError err)), s1)
      | (None, s1) \<Rightarrow>
          (case Parse s1 of
             ((errs, table), s2) \<Rightarrow>
               if length errs \<noteq> 0 then (Returned (Some (MultipleParseErrors errs)), s2)
               else (case Save (reconcile (map (\<lambda>host. (Name host, HostIP host)) hosts) table) s2 of
                       (err, s3) \<Rightarrow> (Returned err, s3))))"

text \<open>
  \<^verbatim>\<open>updateHostsFile\<close> of the package of src/pkg/host/updater.go 62-99. After the loop it
  prints the table and returns \<^verbatim>\<open>nil\<close>; the call of \<^verbatim>\<open>hostfile.Save()\<close> is commented
  out (line 98).
\<close>

definition host_updateHostsFile :: "(string \<times> IP) list \<Rightarrow> store \<Rightarrow> outcome \<times> store" where
  "host_updateHostsFile hosts s =
     (case Read s of
        (Some err, s1) \<Rightarrow> (Returned (Some (ReadError err)), s1)
      | (None, s1) \<Rightarrow>
          (case Parse s1 of
             ((errs, table), s2) \<Rightarrow>
               if length errs \<noteq> 0 then (Returned (Some (MultipleParseErrors errs)), s2)
               else (let table' = reconcile hosts table;
                         s3 = s2\<lparr>stdout := stdout s2 @ [PrintLine ''hostfile.Hosts'']\<rparr>
                     in case dump_error s3 of
                          Some err \<Rightarrow> (Panicked, s3)
                        | None \<Rightarrow>
                            (Returned None, s3\<lparr>stdout := stdout s3 @ [PrintDump table']\<rparr>))))"

subsection \<open>The updater and its providers\<close>

text \<open>
  \<^verbatim>\<open>ServerProvider\<close>, \<^verbatim>\<open>Updater\<close>, \<^verbatim>\<open>NewUpdater\<close>, \<^verbatim>\<open>WithServer\<close> and \<^verbatim>\<open>Update\<close>
  (src/pkg/host/updater.go 13-60). A Go function value may be \<^verbatim>\<open>nil\<close>, so
  \<open>GetHostsFn\<close> is an option; indexing the map \<^verbatim>\<open>servers\<close> with a key it does not hold
  yields the zero value of \<^verbatim>\<open>ServerProvider\<close>, all of whose fields are empty or \<^verbatim>\<open>nil\<close>;
  calling a \<^verbatim>\<open>nil\<close> function panics.
\<close>

type_synonym flags = "string \<rightharpoonup> string"

record ServerProvider =
  ID :: string
  RequiredFlags :: flags
  OptionalFlags :: flags
  GetHostsFn :: "(flags \<Rightarrow> error + (string \<times> IP) list) option"

record Updater =
  servers :: "string \<rightharpoonup> ServerProvider"

definition zeroServerProvider :: ServerProvider where
  "zeroServerProvider =
     \<lparr>ID = [], RequiredFlags = Map.empty, OptionalFlags = Map.empty, GetHostsFn = None\<rparr>"

definition NewUpdater :: Updater where
  "NewUpdater = \<lparr>servers = Map.empty\<rparr>"

definition WithServer :: "ServerProvider \<Rightarrow> Updater \<Rightarrow> Updater" where
  "WithServer server u = u\<lparr>servers := (servers u)(ID server \<mapsto> server)\<rparr>"

definition index_servers :: "Updater \<Rightarrow> string \<Rightarrow> ServerProvider" where
  "index_servers u server =
     (case servers u server of None \<Rightarrow> zeroServerProvider | Some provider \<Rightarrow> provider)"

definition Update :: "Updater \<Rightarrow> string \<Rightarrow> flags \<Rightarrow> store \<Rightarrow> outcome \<times> store" where
  "Update u server fl s =
     (case GetHostsFn (index_servers u server) of
        None \<Rightarrow> (Panicked, s)
      | Some getHosts \<Rightarrow>
          (case getHosts fl of
             Inl err \<Rightarrow> (Returned (Some (CouldNotUpdate err)), s)
           | Inr hosts \<Rightarrow> host_updateHostsFile hosts s))"

subsection \<open>Concrete inputs\<close>

text \<open>
  A store that holds an empty table and answers every call without error, and a provider
  with the identifier and the required flags of src/internal/edgeos/edgeos.go 24-31, whose
  \<^verbatim>\<open>GetHostsFn\<close> returns one pair whatever flags it is given.
\<close>

definition store0 :: store where
  "store0 = \<lparr>persisted = [], read_error = None, parse_errors = [], dump_error = None,
             save_error = None, calls = [], stdout = []\<rparr>"

definition exampleProvider :: ServerProvider where
  "exampleProvider =
     \<lparr>ID = ''edgeos'',
      RequiredFlags = [''address'' \<mapsto> ''the address of the edgeos server'',
                       ''username'' \<mapsto> ''the username for the edgeos server'',
                       ''password'' \<mapsto> ''the password for the edgeos server''],
      OptionalFlags = Map.empty,
      GetHostsFn = Some (\<lambda>fl. Inr [(''host-a'', ''10.0.0.1'')])\<rparr>"

section \<open>Notions for the statements\<close>

text \<open>
  Two predicates used in the proofs: for a pair of an address and a name, an entry of the
  table is \<open>matched\<close> when it has the address and, up to case, the name, and \<open>stale\<close>
  when it has the address and another name. They are the two branches of the loop of
  \<^verbatim>\<open>removeHostsThatMatchIPAndNotDomain\<close>.
\<close>

definition stale :: "IP \<Rightarrow> string \<Rightarrow> Hostname \<Rightarrow> bool" where
  "stale ip name h = (IP h = ip \<and> ToLower (Domain h) \<noteq> ToLower name)"

definition matched :: "IP \<Rightarrow> string \<Rightarrow> Hostname \<Rightarrow> bool" where
  "matched ip name h = (IP h = ip \<and> ToLower (Domain h) = ToLower name)"

text \<open>
  Three notions used to state what happens to the enabled flags. The addresses of the
  pairs that have a name are the addresses the loop acts on. A mapping \<open>reenables\<close> a name
  on a table when some pair with a name has that name up to case and finds, at
  its address, a disabled entry of the table with that name: such a pair makes the loop
  call \<^verbatim>\<open>Enable\<close>. An entry is \<open>at_most_enabled\<close> when it is what it was, or has a
  re-enabled name and is what it was with the flag set.
\<close>

definition named_addresses :: "(string \<times> IP) list \<Rightarrow> IP set" where
  "named_addresses mapping = snd ` set (filter (\<lambda>(name, ip). name \<noteq> []) mapping)"



text \<open>
  A mapping gives \<open>one_name_per_address\<close> when any two of its pairs that have a name and
  share an address have the same name up to case. A pair is \<open>settled\<close> in a table when
  its name is empty, or the table has an entry at its address and every entry at its
  address has its name up to case and is enabled: the body of the loop then has nothing to
  do for the pair.
\<close>

definition one_name_per_address :: "(string \<times> IP) list \<Rightarrow> bool" where
  "one_name_per_address mapping =
     (\<forall>(name, ip)\<in>set mapping. \<forall>(name', ip')\<in>set mapping.
        ip = ip' \<longrightarrow> name = [] \<or> name' = [] \<or> ToLower name = ToLower name')"

definition settled :: "string \<times> IP \<Rightarrow> Hostlist \<Rightarrow> bool" where
  "settled pair hosts =
     (case pair of (name, ip) \<Rightarrow>
        name = [] \<or>
        (filter (\<lambda>h. IP h \<in> {ip}) hosts \<noteq> [] \<and>
         (\<forall>h\<in>set (filter (\<lambda>h. IP h \<in> {ip}) hosts).
            ToLower (Domain h) = ToLower name \<and> Enabled h)))"






section \<open>What one call of the removal function does\<close>

lemma IndexOf_bounds: "- 1 \<le> IndexOf hosts m \<and> IndexOf hosts m < int (length hosts)"
  by (induction hosts) (auto simp: Let_def)

lemma Remove_Cons_Suc: "0 \<le> i \<Longrightarrow> Remove (a # hosts) (i + 1) = a # Remove hosts i"
  by (auto simp: Remove_def nat_add_distrib)

text \<open>Removing an entry at the index \<open>IndexOf\<close> finds is removing its first occurrence.\<close>

lemma Remove_IndexOf: "Remove hosts (IndexOf hosts m) = remove1 m hosts"
proof (induction hosts)
  case Nil
  show ?case by (simp add: Remove_def)
next
  case (Cons a hosts)
  show ?case
  proof (cases "a = m")
    case True
    then show ?thesis by (simp add: Remove_def)
  next
    case False
    show ?thesis
    proof (cases "IndexOf hosts m < 0")
      case True
      then have "Remove hosts (IndexOf hosts m) = hosts" by (simp add: Remove_def)
      with Cons have "remove1 m hosts = hosts" by simp
      with True False show ?thesis by (simp add: Remove_def)
    next
      case nn: False
      then have "Remove (a # hosts) (IndexOf hosts m + 1) = a # Remove hosts (IndexOf hosts m)"
        by (intro Remove_Cons_Suc) simp
      with Cons False nn show ?thesis by simp
    qed
  qed
qed

lemma Enable_idem: "Enable (Enable hosts domain) domain = Enable hosts domain"
  by (simp add: Enable_def)


lemma remove1_Enable:
  assumes "ToLower (Domain m) \<noteq> ToLower domain"
  shows "remove1 m (Enable hosts domain) = Enable (remove1 m hosts) domain"
proof (induction hosts)
  case Nil
  show ?case by (simp add: Enable_def)
next
  case (Cons a hosts)
  show ?case
  proof (cases "ToLower (Domain a) = ToLower domain")
    case True
    with assms have "Domain a \<noteq> Domain m" by auto
    then have "a \<noteq> m" "a\<lparr>Enabled := True\<rparr> \<noteq> m" by auto
    with True Cons show ?thesis by (simp add: Enable_def)
  next
    case False
    with Cons show ?thesis by (simp add: Enable_def)
  qed
qed

lemma fold_remove1_Enable:
  assumes "\<forall>m\<in>set ms. ToLower (Domain m) \<noteq> ToLower domain"
  shows "fold remove1 ms (Enable hosts domain) = Enable (fold remove1 ms hosts) domain"
  using assms by (induction ms arbitrary: hosts) (simp_all add: remove1_Enable)

lemma fold_remove1_Cons:
  assumes "x \<notin> set ys"
  shows "fold remove1 ys (x # zs) = x # fold remove1 ys zs"
  using assms by (induction ys arbitrary: zs) auto

lemma fold_remove1_filter:
  "fold remove1 (filter P xs) xs = filter (\<lambda>x. \<not> P x) xs"
proof (induction xs)
  case Nil
  show ?case by simp
next
  case (Cons x xs)
  show ?case
  proof (cases "P x")
    case True
    with Cons show ?thesis by simp
  next
    case False
    then have "x \<notin> set (filter P xs)" by auto
    then have "fold remove1 (filter P xs) (x # xs) = x # fold remove1 (filter P xs) xs"
      by (rule fold_remove1_Cons)
    with False Cons show ?thesis by simp
  qed
qed

lemma removeLoop_char:
  "removeLoop hosts domain ms found =
     ((if \<exists>m\<in>set ms. ToLower (Domain m) = ToLower domain \<and> \<not> Enabled m
       then Enable (fold remove1 (filter (\<lambda>m. ToLower (Domain m) \<noteq> ToLower domain) ms) hosts) domain
       else fold remove1 (filter (\<lambda>m. ToLower (Domain m) \<noteq> ToLower domain) ms) hosts),
      found \<or> (\<exists>m\<in>set ms. ToLower (Domain m) = ToLower domain))"
proof (induction ms arbitrary: hosts found)
  case Nil
  show ?case by simp
next
  case (Cons m ms)
  let ?stale = "filter (\<lambda>m. ToLower (Domain m) \<noteq> ToLower domain) ms"
  have comm: "fold remove1 ?stale (Enable hosts domain) = Enable (fold remove1 ?stale hosts) domain"
    by (rule fold_remove1_Enable) simp
  show ?case
  proof (cases "ToLower (Domain m) = ToLower domain")
    case True
    then show ?thesis
      by (cases "Enabled m"; cases "\<exists>m\<in>set ms. ToLower (Domain m) = ToLower domain \<and> \<not> Enabled m")
         (auto simp: Cons.IH comm Enable_idem)
  next
    case False
    then show ?thesis
      by (auto simp: Cons.IH Remove_IndexOf)
  qed
qed

lemma removeHosts_char:
  "removeHostsThatMatchIPAndNotDomain hosts ip domain =
     ((if \<exists>h\<in>set hosts. matched ip domain h \<and> \<not> Enabled h
       then Enable (filter (\<lambda>h. \<not> stale ip domain h) hosts) domain
       else filter (\<lambda>h. \<not> stale ip domain h) hosts),
      \<exists>h\<in>set hosts. matched ip domain h)"
proof (cases "ContainsIP hosts ip")
  case False
  then have none: "\<forall>h\<in>set hosts. IP h \<noteq> ip"
    by (simp add: ContainsIP_def list_ex_iff)
  then have "filter (\<lambda>h. \<not> stale ip domain h) hosts = hosts"
    by (simp add: stale_def)
  with none False show ?thesis
    by (auto simp: removeHostsThatMatchIPAndNotDomain_def matched_def)
next
  case True
  have f: "filter (\<lambda>m. ToLower (Domain m) \<noteq> ToLower domain) (FilterByIP hosts ip)
             = filter (\<lambda>h. stale ip domain h) hosts"
    by (simp add: FilterByIP_def stale_def)
  have "fold remove1 (filter (\<lambda>h. stale ip domain h) hosts) hosts = filter (\<lambda>h. \<not> stale ip domain h) hosts"
    by (rule fold_remove1_filter)
  with True f show ?thesis
    by (auto simp: removeHostsThatMatchIPAndNotDomain_def removeLoop_char FilterByIP_def matched_def)
qed

lemma reconcile_pair_char:
  "reconcile_pair (name, ip) hosts =
     (if name = [] then hosts
      else (if \<exists>h\<in>set hosts. matched ip name h \<and> \<not> Enabled h
            then Enable (filter (\<lambda>h. \<not> stale ip name h) hosts) name
            else filter (\<lambda>h. \<not> stale ip name h) hosts)
           @ (if \<exists>h\<in>set hosts. matched ip name h then []
              else [\<lparr>Domain = name, IP = ip, Enabled = True\<rparr>]))"
  by (simp add: reconcile_pair_def removeHosts_char Add_def)

section \<open>The loop over the pairs\<close>

lemma reconcile_Nil [simp]: "reconcile [] hosts = hosts"
  by (simp add: reconcile_def)

lemma reconcile_Cons: "reconcile (p # mapping) hosts = reconcile mapping (reconcile_pair p hosts)"
  by (simp add: reconcile_def)

lemma reconcile_append:
  "reconcile (m1 @ m2) hosts = reconcile m2 (reconcile m1 hosts)"
  by (simp add: reconcile_def)

lemma reconcile_pair_empty_name: "reconcile_pair ([], ip) hosts = hosts"
  by (simp add: reconcile_pair_def)

lemma ToLower_Nil_iff: "ToLower s = ToLower t \<Longrightarrow> (s = []) = (t = [])"
  by (auto simp: ToLower_def dest: map_eq_imp_length_eq)

text \<open>Entries that no name of the step can select are neither changed nor created.\<close>

lemma filter_Enable_other:
  assumes "\<And>h. Q h \<Longrightarrow> ToLower (Domain h) \<noteq> ToLower name"
  shows "filter Q (Enable hosts name) = filter Q hosts"
proof (induction hosts)
  case Nil
  show ?case by (simp add: Enable_def)
next
  case (Cons a hosts)
  show ?case
  proof (cases "ToLower (Domain a) = ToLower name")
    case True
    have "Domain (a\<lparr>Enabled := True\<rparr>) = Domain a" by simp
    with True assms[of a] assms[of "a\<lparr>Enabled := True\<rparr>"] have "\<not> Q a" "\<not> Q (a\<lparr>Enabled := True\<rparr>)"
      by auto
    with True Cons show ?thesis by (simp add: Enable_def)
  next
    case False
    with Cons show ?thesis by (simp add: Enable_def)
  qed
qed

lemma filter_reconcile_pair_other:
  assumes "\<And>h. Q h \<Longrightarrow> ToLower (Domain h) \<noteq> ToLower name"
  shows "filter Q (reconcile_pair (name, ip) hosts) =
           (if name = [] then filter Q hosts else filter (\<lambda>h. Q h \<and> IP h \<noteq> ip) hosts)"
proof -
  have new: "\<not> Q \<lparr>Domain = name, IP = ip, Enabled = True\<rparr>"
    using assms[of "\<lparr>Domain = name, IP = ip, Enabled = True\<rparr>"] by auto
  have keep: "filter (\<lambda>h. \<not> stale ip name h \<and> Q h) hosts = filter (\<lambda>h. Q h \<and> IP h \<noteq> ip) hosts"
    using assms by (auto simp: stale_def intro: filter_cong)
  show ?thesis
    by (simp add: reconcile_pair_char filter_Enable_other[of Q, OF assms] new keep)
qed

lemma filter_reconcile_other:
  assumes "\<And>h n ip. Q h \<Longrightarrow> (n, ip) \<in> set mapping \<Longrightarrow> n \<noteq> [] \<Longrightarrow> ToLower (Domain h) \<noteq> ToLower n"
  shows "filter Q (reconcile mapping hosts) =
           filter (\<lambda>h. Q h \<and> (\<forall>(n, ip)\<in>set mapping. n \<noteq> [] \<longrightarrow> IP h \<noteq> ip)) hosts"
  using assms
proof (induction mapping arbitrary: hosts)
  case Nil
  show ?case by simp
next
  case (Cons p mapping)
  obtain n ip where p: "p = (n, ip)" by (cases p)
  let ?R = "\<lambda>h. \<forall>(n, ip)\<in>set mapping. n \<noteq> [] \<longrightarrow> IP h \<noteq> ip"
  have IH: "filter Q (reconcile mapping hs) = filter (\<lambda>h. Q h \<and> ?R h) hs" for hs
    by (rule Cons.IH) (use Cons.prems in auto)
  have split: "filter (\<lambda>h. Q h \<and> ?R h) xs = filter ?R (filter Q xs)" for xs
    by (auto intro: filter_cong)
  show ?case
  proof (cases "n = []")
    case True
    have "filter Q (reconcile (p # mapping) hosts) = filter (\<lambda>h. Q h \<and> ?R h) hosts"
      by (simp add: reconcile_Cons p True reconcile_pair_empty_name IH)
    also have "\<dots> = filter (\<lambda>h. Q h \<and> (\<forall>(n, ip)\<in>set (p # mapping). n \<noteq> [] \<longrightarrow> IP h \<noteq> ip)) hosts"
      using True p by (auto intro: filter_cong)
    finally show ?thesis .
  next
    case False
    have Qn: "\<And>h. Q h \<Longrightarrow> ToLower (Domain h) \<noteq> ToLower n"
      using Cons.prems[of _ n ip] False p by auto
    have step: "filter Q (reconcile_pair (n, ip) hosts) = filter (\<lambda>h. Q h \<and> IP h \<noteq> ip) hosts"
      using filter_reconcile_pair_other[of Q n ip hosts, OF Qn] False by simp
    have "filter Q (reconcile (p # mapping) hosts) = filter ?R (filter Q (reconcile_pair (n, ip) hosts))"
      by (simp only: reconcile_Cons p IH split)
    also have "\<dots> = filter ?R (filter (\<lambda>h. Q h \<and> IP h \<noteq> ip) hosts)"
      by (simp only: step)
    also have "\<dots> = filter (\<lambda>h. Q h \<and> (\<forall>(n, ip)\<in>set (p # mapping). n \<noteq> [] \<longrightarrow> IP h \<noteq> ip)) hosts"
      using False p by (auto intro: filter_cong)
    finally show ?thesis .
  qed
qed

section \<open>The enabled flags\<close>

lemma reconcile_pair_reenable:
  assumes "name \<noteq> []" and "\<exists>h\<in>set hosts. matched ip name h \<and> \<not> Enabled h"
  shows "reconcile_pair (name, ip) hosts = Enable (filter (\<lambda>h. \<not> stale ip name h) hosts) name"
proof -
  from assms(2) have "\<exists>h\<in>set hosts. matched ip name h" by blast
  with assms show ?thesis by (simp only: reconcile_pair_char if_True if_False append_Nil2)
qed

lemma reconcile_pair_keep:
  assumes "name \<noteq> []" and "\<not> (\<exists>h\<in>set hosts. matched ip name h \<and> \<not> Enabled h)"
    and "\<exists>h\<in>set hosts. matched ip name h"
  shows "reconcile_pair (name, ip) hosts = filter (\<lambda>h. \<not> stale ip name h) hosts"
  using assms by (simp only: reconcile_pair_char if_True if_False append_Nil2)

lemma reconcile_pair_add:
  assumes "name \<noteq> []" and "\<not> (\<exists>h\<in>set hosts. matched ip name h)"
  shows "reconcile_pair (name, ip) hosts =
           filter (\<lambda>h. \<not> stale ip name h) hosts @ [\<lparr>Domain = name, IP = ip, Enabled = True\<rparr>]"
proof -
  from assms(2) have "\<not> (\<exists>h\<in>set hosts. matched ip name h \<and> \<not> Enabled h)" by blast
  with assms show ?thesis by (simp only: reconcile_pair_char if_True if_False)
qed

lemma Enabled_update_id: "Enabled h \<Longrightarrow> h\<lparr>Enabled := True\<rparr> = h"
  by simp







lemma named_addresses_Nil [simp]: "named_addresses [] = {}"
  by (simp add: named_addresses_def)






lemma filter_IP_Enable:
  "filter (\<lambda>h. IP h \<in> A) (Enable hosts name) = Enable (filter (\<lambda>h. IP h \<in> A) hosts) name"
  by (induction hosts) (simp_all add: Enable_def)

lemma frame_reconcile_pair:
  assumes ne: "name \<noteq> []" and out: "ip \<notin> A"
  shows "filter (\<lambda>h. IP h \<in> A) (reconcile_pair (name, ip) hs) =
           (if \<exists>h\<in>set hs. matched ip name h \<and> \<not> Enabled h
            then Enable (filter (\<lambda>h. IP h \<in> A) hs) name
            else filter (\<lambda>h. IP h \<in> A) hs)"
proof -
  have keep: "filter (\<lambda>h. IP h \<in> A) (filter (\<lambda>h. \<not> stale ip name h) hs) = filter (\<lambda>h. IP h \<in> A) hs"
    unfolding filter_filter using out by (intro filter_cong) (auto simp: stale_def)
  show ?thesis
  proof (cases "\<exists>h\<in>set hs. matched ip name h \<and> \<not> Enabled h")
    case True
    show ?thesis
      by (simp only: reconcile_pair_reenable[OF ne True] filter_IP_Enable keep True if_True)
  next
    case nd: False
    show ?thesis
    proof (cases "\<exists>h\<in>set hs. matched ip name h")
      case True
      show ?thesis by (simp only: reconcile_pair_keep[OF ne nd True] keep nd if_False)
    next
      case nm: False
      have "filter (\<lambda>h. IP h \<in> A) (reconcile_pair (name, ip) hs) = filter (\<lambda>h. IP h \<in> A) hs"
        using out by (simp add: reconcile_pair_add[OF ne nm] keep del: filter_filter)
      then show ?thesis by (simp only: nd if_False)
    qed
  qed
qed




section \<open>The entries that survive\<close>






section \<open>Names that are empty\<close>

text \<open>
  C7. A pair whose name is the empty string leaves the table as it is: the body of the
  loop returns the table it was given, dropping such a pair from the mapping does not
  change the result of the loop, and the entries with an empty name that the result holds
  are entries with an empty name of the table it started from, in their order: none is
  created.
\<close>

theorem empty_name_skipped:
  "reconcile_pair ([], ip) hosts = hosts
   \<and> reconcile (before @ ([], ip) # after) hosts = reconcile (before @ after) hosts
   \<and> subseq (filter (\<lambda>h. Domain h = []) (reconcile mapping hosts))
             (filter (\<lambda>h. Domain h = []) hosts)"
proof -
  let ?Q = "\<lambda>h::Hostname. Domain h = []"
  have a: "reconcile_pair ([], ip) hosts = hosts"
    by (rule reconcile_pair_empty_name)
  have b: "reconcile (before @ ([], ip) # after) hosts = reconcile (before @ after) hosts"
    by (simp add: reconcile_append reconcile_Cons reconcile_pair_empty_name)
  have "filter ?Q (reconcile mapping hosts) =
          filter (\<lambda>h. ?Q h \<and> (\<forall>(n, ip)\<in>set mapping. n \<noteq> [] \<longrightarrow> IP h \<noteq> ip)) hosts"
    by (rule filter_reconcile_other) (use ToLower_Nil_iff in blast)
  also have "\<dots> = filter (\<lambda>h. \<forall>(n, ip)\<in>set mapping. n \<noteq> [] \<longrightarrow> IP h \<noteq> ip) (filter ?Q hosts)"
    by (auto intro: filter_cong)
  finally have "filter ?Q (reconcile mapping hosts) =
      filter (\<lambda>h. \<forall>(n, ip)\<in>set mapping. n \<noteq> [] \<longrightarrow> IP h \<noteq> ip) (filter ?Q hosts)" .
  then have c: "subseq (filter ?Q (reconcile mapping hosts)) (filter ?Q hosts)"
    by (simp only: subseq_filter_left)
  from a b c show ?thesis by blast
qed

section \<open>The pipeline around the loop\<close>

text \<open>
  C9. When reading the file succeeds and parsing it yields at least one error, both
  versions of \<^verbatim>\<open>updateHostsFile\<close> return one error that carries all the parse errors;
  the store has received \<^verbatim>\<open>Read\<close> and \<^verbatim>\<open>Parse\<close> and nothing else, so the loop has
  not run on it and nothing has been saved: what is persisted is what was persisted.
\<close>

theorem parse_errors_abort:
  assumes "read_error s = None" and "parse_errors s \<noteq> []"
  shows "main_updateHostsFile hosts s =
           (Returned (Some (MultipleParseErrors (parse_errors s))),
            s\<lparr>calls := calls s @ [CallRead, CallParse]\<rparr>)
         \<and> host_updateHostsFile mapping s =
           (Returned (Some (MultipleParseErrors (parse_errors s))),
            s\<lparr>calls := calls s @ [CallRead, CallParse]\<rparr>)"
  using assms
  by (simp add: main_updateHostsFile_def host_updateHostsFile_def Read_def Parse_def)

theorem parse_errors_abort_witness:
  "main_updateHostsFile [\<lparr>Name = ''host-a'', HostIP = ''10.0.0.1'', MAC = ''00:11:22:33:44:55''\<rparr>]
       (store0\<lparr>parse_errors := [''bad line 3'', ''bad line 7'']\<rparr>) =
     (Returned (Some (MultipleParseErrors [''bad line 3'', ''bad line 7''])),
      store0\<lparr>parse_errors := [''bad line 3'', ''bad line 7''], calls := [CallRead, CallParse]\<rparr>)
   \<and> host_updateHostsFile [(''host-a'', ''10.0.0.1'')]
       (store0\<lparr>parse_errors := [''bad line 3'', ''bad line 7'']\<rparr>) =
     (Returned (Some (MultipleParseErrors [''bad line 3'', ''bad line 7''])),
      store0\<lparr>parse_errors := [''bad line 3'', ''bad line 7''], calls := [CallRead, CallParse]\<rparr>)"
  using parse_errors_abort [of "store0\<lparr>parse_errors := [''bad line 3'', ''bad line 7'']\<rparr>"
      "[\<lparr>Name = ''host-a'', HostIP = ''10.0.0.1'', MAC = ''00:11:22:33:44:55''\<rparr>]"
      "[(''host-a'', ''10.0.0.1'')]"]
  by (simp add: store0_def)

text \<open>
  When nothing fails, the command of src/main.go hands the table the loop produced to
  \<^verbatim>\<open>Save\<close>, after \<^verbatim>\<open>Read\<close> and \<^verbatim>\<open>Parse\<close>; the package of src/pkg/host/updater.go
  never calls \<^verbatim>\<open>Save\<close> and leaves what is persisted as it was.
\<close>

lemma main_updateHostsFile_saves:
  assumes "read_error s = None" and "parse_errors s = []" and "save_error s = None"
  shows "main_updateHostsFile hosts s =
           (Returned None,
            s\<lparr>persisted := reconcile (map (\<lambda>host. (Name host, HostIP host)) hosts) (persisted s),
              calls := calls s @ [CallRead, CallParse,
                 CallSave (reconcile (map (\<lambda>host. (Name host, HostIP host)) hosts) (persisted s))]\<rparr>)"
  using assms
  by (simp add: main_updateHostsFile_def Read_def Parse_def Save_def)

lemma host_updateHostsFile_keeps_persisted:
  "persisted (snd (host_updateHostsFile mapping s)) = persisted s
   \<and> (\<exists>cs. calls (snd (host_updateHostsFile mapping s)) = calls s @ cs \<and> set cs \<subseteq> {CallRead, CallParse})"
  by (cases "read_error s"; cases "dump_error s")
     (simp_all add: host_updateHostsFile_def Read_def Parse_def Let_def)

text \<open>
  C8. The run of src/pkg/host/updater.go on an empty persisted table and the mapping of
  \<^verbatim>\<open>host-a\<close> to \<^verbatim>\<open>10.0.0.1\<close>, with no failure anywhere: the function returns
  \<^verbatim>\<open>nil\<close>, the store has received \<^verbatim>\<open>Read\<close> and \<^verbatim>\<open>Parse\<close> only, the reconciled table
  has been printed and the persisted table is still empty. On the same input the command
  of src/main.go saves the reconciled table.
\<close>

theorem host_updateHostsFile_does_not_save:
  "host_updateHostsFile [(''host-a'', ''10.0.0.1'')] store0 =
     (Returned None,
      store0\<lparr>calls := [CallRead, CallParse],
             stdout := [PrintLine ''hostfile.Hosts'',
                        PrintDump [\<lparr>Domain = ''host-a'', IP = ''10.0.0.1'', Enabled = True\<rparr>]]\<rparr>)
   \<and> persisted (snd (host_updateHostsFile [(''host-a'', ''10.0.0.1'')] store0)) = []
   \<and> main_updateHostsFile
        [\<lparr>Name = ''host-a'', HostIP = ''10.0.0.1'', MAC = ''00:11:22:33:44:55''\<rparr>] store0 =
     (Returned None,
      store0\<lparr>persisted := [\<lparr>Domain = ''host-a'', IP = ''10.0.0.1'', Enabled = True\<rparr>],
             calls := [CallRead, CallParse,
                       CallSave [\<lparr>Domain = ''host-a'', IP = ''10.0.0.1'', Enabled = True\<rparr>]]\<rparr>)"
  by (simp add: host_updateHostsFile_def main_updateHostsFile_def Read_def Parse_def Save_def
        store0_def reconcile_def reconcile_pair_char)

section \<open>The updater\<close>

lemma servers_fold_WithServer:
  "servers (fold WithServer providers u) server =
     (if server \<in> ID ` set providers
      then servers (fold WithServer providers u) server
      else servers u server)"
  by (induction providers arbitrary: u) (auto simp: WithServer_def)

text \<open>
  C10. \<^verbatim>\<open>Update\<close> with an identifier that no call of \<^verbatim>\<open>WithServer\<close> has registered
  panics, and the store is not touched: the map index yields the zero
  \<^verbatim>\<open>ServerProvider\<close>, whose \<^verbatim>\<open>GetHostsFn\<close> is \<^verbatim>\<open>nil\<close>. For a registered provider
  \<^verbatim>\<open>Update\<close> calls its \<^verbatim>\<open>GetHostsFn\<close> with the flags as they are, whatever
  \<^verbatim>\<open>RequiredFlags\<close> says: no check stands before the call.
\<close>

theorem Update_unregistered_panics:
  "(server \<notin> ID ` set providers \<longrightarrow>
      Update (fold WithServer providers NewUpdater) server fl s = (Panicked, s))
   \<and> (GetHostsFn provider = Some getHosts \<longrightarrow>
      Update (WithServer provider u) (ID provider) fl s =
        (case getHosts fl of
           Inl err \<Rightarrow> (Returned (Some (CouldNotUpdate err)), s)
         | Inr hosts \<Rightarrow> host_updateHostsFile hosts s))"
proof -
  have "servers (fold WithServer providers NewUpdater) server = None"
    if "server \<notin> ID ` set providers"
    using that servers_fold_WithServer[of providers NewUpdater server] by (simp add: NewUpdater_def)
  then have a: "server \<notin> ID ` set providers \<longrightarrow>
      Update (fold WithServer providers NewUpdater) server fl s = (Panicked, s)"
    by (simp add: Update_def index_servers_def zeroServerProvider_def)
  have b: "GetHostsFn provider = Some getHosts \<longrightarrow>
      Update (WithServer provider u) (ID provider) fl s =
        (case getHosts fl of
           Inl err \<Rightarrow> (Returned (Some (CouldNotUpdate err)), s)
         | Inr hosts \<Rightarrow> host_updateHostsFile hosts s)"
    by (simp add: Update_def index_servers_def WithServer_def)
  from a b show ?thesis by blast
qed

theorem Update_unregistered_panics_witness:
  "''udm-pro'' \<notin> ID ` set [exampleProvider]
   \<and> Update (fold WithServer [exampleProvider] NewUpdater) ''udm-pro'' Map.empty store0
       = (Panicked, store0)
   \<and> GetHostsFn exampleProvider = Some (\<lambda>fl. Inr [(''host-a'', ''10.0.0.1'')])
   \<and> Update (WithServer exampleProvider NewUpdater) ''edgeos'' Map.empty store0
       = host_updateHostsFile [(''host-a'', ''10.0.0.1'')] store0"
proof -
  have h1: "''udm-pro'' \<notin> ID ` set [exampleProvider]"
    by (simp add: exampleProvider_def)
  have h2: "GetHostsFn exampleProvider = Some (\<lambda>fl. Inr [(''host-a'', ''10.0.0.1'')])"
    by (simp add: exampleProvider_def)
  have id: "ID exampleProvider = ''edgeos''"
    by (simp add: exampleProvider_def)
  from Update_unregistered_panics
         [of "''udm-pro''" "[exampleProvider]" Map.empty store0 exampleProvider
             "\<lambda>fl. Inr [(''host-a'', ''10.0.0.1'')]" NewUpdater]
       h1 h2 id
  show ?thesis by simp
qed

section \<open>Entries at addresses the mapping does not mention\<close>




section \<open>The transitions of the enabled flag\<close>




section \<open>Running the loop again\<close>

lemma Enable_all_enabled:
  assumes "\<forall>h\<in>set xs. Enabled h"
  shows "Enable xs name = xs"
  using assms by (induction xs) (simp_all add: Enable_def)

lemma set_Enable_IP: "IP ` set (Enable xs name) = IP ` set xs"
  by (induction xs) (simp_all add: Enable_def)

lemma settled_fixed:
  assumes "settled (name, ip) hosts"
  shows "reconcile_pair (name, ip) hosts = hosts"
proof (cases "name = []")
  case True
  then show ?thesis by (simp add: reconcile_pair_empty_name)
next
  case False
  with assms have ne: "filter (\<lambda>h. IP h \<in> {ip}) hosts \<noteq> []"
    and all: "\<And>h. h \<in> set hosts \<Longrightarrow> IP h = ip \<Longrightarrow> ToLower (Domain h) = ToLower name \<and> Enabled h"
    by (auto simp: settled_def)
  from ne obtain g where g: "g \<in> set hosts" "IP g = ip"
    by (auto simp: filter_empty_conv)
  have m: "\<exists>h\<in>set hosts. matched ip name h"
    using g all[OF g] by (auto simp: matched_def)
  have nd: "\<not> (\<exists>h\<in>set hosts. matched ip name h \<and> \<not> Enabled h)"
    using all by (auto simp: matched_def)
  have "filter (\<lambda>h. \<not> stale ip name h) hosts = hosts"
    using all by (auto simp: stale_def filter_id_conv)
  then show ?thesis
    by (simp only: reconcile_pair_keep[OF False nd m])
qed

lemma settled_self: "settled (name, ip) (reconcile_pair (name, ip) hosts)"
proof (cases "name = []")
  case True
  then show ?thesis by (simp add: settled_def)
next
  case False
  let ?K = "\<lambda>h. \<not> stale ip name h"
  have kept: "ToLower (Domain h) = ToLower name" if "h \<in> set (filter ?K hosts)" "IP h = ip" for h
    using that by (auto simp: stale_def)
  show ?thesis
  proof (cases "\<exists>h\<in>set hosts. matched ip name h \<and> \<not> Enabled h")
    case True
    then obtain g where g: "g \<in> set hosts" "matched ip name g" by blast
    then have "g \<in> set (filter ?K hosts)" by (auto simp: stale_def matched_def)
    then have "IP g \<in> IP ` set (Enable (filter ?K hosts) name)"
      by (simp only: set_Enable_IP) (rule imageI)
    then obtain g' where g': "g' \<in> set (Enable (filter ?K hosts) name)" "IP g' = ip"
      using g(2) by (auto simp: matched_def)
    have all: "ToLower (Domain h) = ToLower name \<and> Enabled h"
      if "h \<in> set (Enable (filter ?K hosts) name)" "IP h = ip" for h
    proof -
      from that(1) obtain h0 where h0: "h0 \<in> set (filter ?K hosts)"
        and h: "h = (if ToLower (Domain h0) = ToLower name then h0\<lparr>Enabled := True\<rparr> else h0)"
        by (auto simp: Enable_def)
      have "IP h0 = ip" using h that(2) by (simp split: if_splits)
      then have "ToLower (Domain h0) = ToLower name" using kept[OF h0] by simp
      with h show ?thesis by simp
    qed
    show ?thesis
      unfolding reconcile_pair_reenable[OF False True] settled_def
      using g' all False by (auto simp: filter_empty_conv)
  next
    case nd: False
    show ?thesis
    proof (cases "\<exists>h\<in>set hosts. matched ip name h")
      case True
      then obtain g where g: "g \<in> set hosts" "matched ip name g" by blast
      then have gk: "g \<in> set (filter ?K hosts)" "IP g = ip" by (auto simp: stale_def matched_def)
      have all: "ToLower (Domain h) = ToLower name \<and> Enabled h"
        if "h \<in> set (filter ?K hosts)" "IP h = ip" for h
        using kept[OF that] that nd by (auto simp: matched_def)
      show ?thesis
        unfolding reconcile_pair_keep[OF False nd True] settled_def
        using gk all False by (auto simp: filter_empty_conv)
    next
      case nm: False
      have none: "IP h \<noteq> ip" if "h \<in> set (filter ?K hosts)" for h
        using kept[OF that] that nm by (auto simp: matched_def)
      show ?thesis
        unfolding reconcile_pair_add[OF False nm] settled_def
        using none False by (auto simp: filter_empty_conv)
    qed
  qed
qed

lemma settled_other:
  assumes s: "settled (name, ip) hosts"
    and c: "name' = [] \<or> ip' \<noteq> ip \<or> name = [] \<or> ToLower name' = ToLower name"
  shows "settled (name, ip) (reconcile_pair (name', ip') hosts)"
proof (cases "name = [] \<or> name' = []")
  case True
  with s show ?thesis by (auto simp: settled_def reconcile_pair_empty_name)
next
  case False
  then have ne: "name \<noteq> []" "name' \<noteq> []" by simp_all
  show ?thesis
  proof (cases "ip' = ip")
    case True
    with c ne have "ToLower name' = ToLower name" by simp
    with s True ne have "settled (name', ip') hosts" by (simp add: settled_def)
    then have "reconcile_pair (name', ip') hosts = hosts" by (rule settled_fixed)
    with s show ?thesis by simp
  next
    case False
    then have out: "ip' \<notin> {ip}" by simp
    from s ne have en: "\<forall>h\<in>set (filter (\<lambda>h. IP h \<in> {ip}) hosts). Enabled h"
      by (auto simp: settled_def)
    have same: "filter (\<lambda>h. IP h \<in> {ip}) (reconcile_pair (name', ip') hosts) = filter (\<lambda>h. IP h \<in> {ip}) hosts"
      by (simp only: frame_reconcile_pair[OF ne(2) out] Enable_all_enabled[OF en] if_cancel)
    from s show ?thesis unfolding settled_def prod.case same .
  qed
qed

lemma settled_after:
  assumes "one_name_per_address mapping" and "p \<in> set mapping"
  shows "settled p (reconcile mapping hosts)"
  using assms
proof (induction mapping arbitrary: p rule: rev_induct)
  case Nil
  then show ?case by simp
next
  case (snoc q mapping)
  obtain name ip where p: "p = (name, ip)" by (cases p)
  obtain name' ip' where q: "q = (name', ip')" by (cases q)
  have one: "one_name_per_address mapping"
    using snoc.prems(1) by (auto simp: one_name_per_address_def)
  show ?case
  proof (cases "p = q")
    case True
    then show ?thesis
      unfolding reconcile_append reconcile_Cons reconcile_Nil p q by (simp add: settled_self)
  next
    case False
    with snoc.prems(2) have pin: "p \<in> set mapping" by simp
    have IH: "settled (name, ip) (reconcile mapping hosts)"
      using snoc.IH[OF one pin] p by simp
    have c: "name' = [] \<or> ip' \<noteq> ip \<or> name = [] \<or> ToLower name' = ToLower name"
      using snoc.prems(1) pin p q unfolding one_name_per_address_def by fastforce
    show ?thesis
      unfolding reconcile_append reconcile_Cons reconcile_Nil p q
      by (rule settled_other[OF IH c])
  qed
qed

lemma settled_reconcile_fixed:
  assumes "\<And>p. p \<in> set mapping \<Longrightarrow> settled p hosts"
  shows "reconcile mapping hosts = hosts"
  using assms
proof (induction mapping)
  case Nil
  show ?case by simp
next
  case (Cons p mapping)
  obtain name ip where p: "p = (name, ip)" by (cases p)
  have "reconcile_pair p hosts = hosts"
    unfolding p by (rule settled_fixed) (use Cons.prems p in simp)
  then show ?case
    unfolding reconcile_Cons using Cons by simp
qed

text \<open>
  C3, as the code has it. When no address of the mapping is paired with two names that
  differ beyond case, running the loop again on the table it produced, over the same pairs
  in any order, changes nothing.
\<close>

theorem reconcile_idempotent:
  assumes "one_name_per_address mapping" and "set mapping' = set mapping"
  shows "reconcile mapping' (reconcile mapping hosts) = reconcile mapping hosts"
  by (rule settled_reconcile_fixed) (use assms settled_after in blast)

theorem reconcile_idempotent_witness:
  "one_name_per_address [(''host-a'', ''10.0.0.1''), ('''', ''10.0.0.3''), (''new-name'', ''10.0.0.7'')]
   \<and> set [(''new-name'', ''10.0.0.7''), (''host-a'', ''10.0.0.1''), ('''', ''10.0.0.3'')]
       = set [(''host-a'', ''10.0.0.1''), ('''', ''10.0.0.3''), (''new-name'', ''10.0.0.7'')]
   \<and> reconcile [(''new-name'', ''10.0.0.7''), (''host-a'', ''10.0.0.1''), ('''', ''10.0.0.3'')]
       (reconcile [(''host-a'', ''10.0.0.1''), ('''', ''10.0.0.3''), (''new-name'', ''10.0.0.7'')]
          [\<lparr>Domain = ''HOST-A'', IP = ''10.0.0.1'', Enabled = False\<rparr>,
           \<lparr>Domain = ''old-name'', IP = ''10.0.0.7'', Enabled = True\<rparr>])
     = reconcile [(''host-a'', ''10.0.0.1''), ('''', ''10.0.0.3''), (''new-name'', ''10.0.0.7'')]
          [\<lparr>Domain = ''HOST-A'', IP = ''10.0.0.1'', Enabled = False\<rparr>,
           \<lparr>Domain = ''old-name'', IP = ''10.0.0.7'', Enabled = True\<rparr>]
   \<and> reconcile [(''host-a'', ''10.0.0.1''), ('''', ''10.0.0.3''), (''new-name'', ''10.0.0.7'')]
          [\<lparr>Domain = ''HOST-A'', IP = ''10.0.0.1'', Enabled = False\<rparr>,
           \<lparr>Domain = ''old-name'', IP = ''10.0.0.7'', Enabled = True\<rparr>]
     = [\<lparr>Domain = ''HOST-A'', IP = ''10.0.0.1'', Enabled = True\<rparr>,
        \<lparr>Domain = ''new-name'', IP = ''10.0.0.7'', Enabled = True\<rparr>]"
proof -
  let ?M = "[(''host-a'', ''10.0.0.1''), ('''', ''10.0.0.3''), (''new-name'', ''10.0.0.7'')]"
  let ?M' = "[(''new-name'', ''10.0.0.7''), (''host-a'', ''10.0.0.1''), ('''', ''10.0.0.3'')]"
  let ?T = "[\<lparr>Domain = ''HOST-A'', IP = ''10.0.0.1'', Enabled = False\<rparr>,
           \<lparr>Domain = ''old-name'', IP = ''10.0.0.7'', Enabled = True\<rparr>]"
  have h1: "one_name_per_address ?M" by code_simp
  have h2: "set ?M' = set ?M" by auto
  have ev: "reconcile ?M ?T = [\<lparr>Domain = ''HOST-A'', IP = ''10.0.0.1'', Enabled = True\<rparr>,
        \<lparr>Domain = ''new-name'', IP = ''10.0.0.7'', Enabled = True\<rparr>]"
    by code_simp
  from reconcile_idempotent [OF h1 h2, of ?T] h1 h2 ev show ?thesis by blast
qed

text \<open>
  C3 as stated fails: the mapping gives \<^verbatim>\<open>192.168.1.5\<close> to \<^verbatim>\<open>printer\<close> and to
  \<^verbatim>\<open>hp-laserjet\<close>. On the empty table the first run leaves \<^verbatim>\<open>hp-laserjet\<close> before
  \<^verbatim>\<open>nas\<close>; the second run, over the same pairs in the same order, removes
  \<^verbatim>\<open>hp-laserjet\<close> for \<^verbatim>\<open>printer\<close>, then \<^verbatim>\<open>printer\<close> for \<^verbatim>\<open>hp-laserjet\<close>, and the
  entry ends up after \<^verbatim>\<open>nas\<close>.
\<close>

theorem reconcile_idempotent_counterexample:
  "reconcile [(''printer'', ''192.168.1.5''), (''hp-laserjet'', ''192.168.1.5''), (''nas'', ''192.168.1.9'')] []
     = [\<lparr>Domain = ''hp-laserjet'', IP = ''192.168.1.5'', Enabled = True\<rparr>,
        \<lparr>Domain = ''nas'', IP = ''192.168.1.9'', Enabled = True\<rparr>]
   \<and> reconcile [(''printer'', ''192.168.1.5''), (''hp-laserjet'', ''192.168.1.5''), (''nas'', ''192.168.1.9'')]
       (reconcile [(''printer'', ''192.168.1.5''), (''hp-laserjet'', ''192.168.1.5''), (''nas'', ''192.168.1.9'')] [])
     = [\<lparr>Domain = ''nas'', IP = ''192.168.1.9'', Enabled = True\<rparr>,
        \<lparr>Domain = ''hp-laserjet'', IP = ''192.168.1.5'', Enabled = True\<rparr>]"
  by code_simp

section \<open>The entries at the address of a pair\<close>


















section \<open>The order in which the pairs are visited\<close>







lemma named_addresses_snoc:
  "named_addresses (mapping @ [(name, ip)]) =
     (if name = [] then named_addresses mapping else insert ip (named_addresses mapping))"
  by (auto simp: named_addresses_def)















end
